theory Spec2Isabelle
  imports Main "HOL-Library.Sublist" "HOL-Library.Monad_Syntax"
begin

section \<open>Values, errors and the outside world\<close>

text \<open>
  The utilities of \<^verbatim>\<open>utils/soapUtils.ts\<close> are embedded as HOL functions. A JavaScript
  string is a \<^typ>\<open>string\<close>; the embedding covers code units below 256. A function that
  can throw returns \<open>error + 'a\<close>, with \<open>Inl\<close> the value thrown. What a function reads and
  writes outside its arguments is a \<open>world\<close> that it takes and returns.
\<close>

datatype error =
    SyntaxError            \<comment> \<open>thrown by \<^verbatim>\<open>new RegExp\<close> on an invalid pattern\<close>
  | ENOENT string          \<comment> \<open>thrown by \<^verbatim>\<open>fs.readFileSync\<close>: no file at this path\<close>
  | Failure string         \<comment> \<open>any other value thrown by a library\<close>

datatype jsval = Str string | Null | Undefined

datatype entry =
    Log string
  | Error string
  | ErrorHeaders string "(string \<times> string) list"
  | ErrorThrown string error

record response =
  status :: nat
  headersArray :: "(string \<times> string) list"
  body :: string

record request_options =
  headers :: "string \<rightharpoonup> string"
  data :: string

record world =
  files :: "string \<rightharpoonup> string"                    \<comment> \<open>the file system: path to content\<close>
  console :: "entry list"                                  \<comment> \<open>lines written so far\<close>
  posts :: "(string \<times> request_options) list"              \<comment> \<open>calls of \<^verbatim>\<open>request.post\<close> so far\<close>

text \<open>
  The libraries the module imports are parameters: \<^verbatim>\<open>__dirname\<close>, \<^verbatim>\<open>path.join\<close> and
  \<^verbatim>\<open>Handlebars.compile\<close> (whose result, the template delegate, maps the data to the
  rendered text or throws).
\<close>

record 'd env =
  dirname :: string
  path_join :: "string list \<Rightarrow> string"
  compile :: "string \<Rightarrow> 'd \<Rightarrow> error + string"

section \<open>Templates\<close>

definition readFileSync :: "string \<Rightarrow> world \<Rightarrow> (error + string) \<times> world" where
  "readFileSync p w = (case files w p of None \<Rightarrow> (Inl (ENOENT p), w) | Some content \<Rightarrow> (Inr content, w))"

definition templatePath :: "'d env \<Rightarrow> string \<Rightarrow> string" where
  "templatePath e templateName =
     path_join e [dirname e, ''../api/requests'', templateName @ ''.xml'']"

definition loadSoapTemplate ::
  "'d env \<Rightarrow> string \<Rightarrow> world \<Rightarrow> (error + ('d \<Rightarrow> error + string)) \<times> world" where
  "loadSoapTemplate e templateName w =
     (case readFileSync (templatePath e templateName) w of
        (Inl err, w') \<Rightarrow> (Inl err, w')
      | (Inr templateContent, w') \<Rightarrow> (Inr (compile e templateContent), w'))"

definition processSoapTemplate ::
  "'d env \<Rightarrow> string \<Rightarrow> 'd \<Rightarrow> world \<Rightarrow> (error + string) \<times> world" where
  "processSoapTemplate e templateName d w =
     (case loadSoapTemplate e templateName w of
        (Inl err, w') \<Rightarrow> (Inl err, w')
      | (Inr template, w') \<Rightarrow> (template d, w'))"

section \<open>Sending a request\<close>

definition console_log :: "string \<Rightarrow> world \<Rightarrow> world" where
  "console_log s w = w\<lparr>console := console w @ [Log s]\<rparr>"

definition console_error :: "string \<Rightarrow> world \<Rightarrow> world" where
  "console_error s w = w\<lparr>console := console w @ [Error s]\<rparr>"

definition post ::
  "(string \<Rightarrow> request_options \<Rightarrow> error + response) \<Rightarrow> string \<Rightarrow> request_options \<Rightarrow> world
     \<Rightarrow> (error + response) \<times> world" where
  "post request url options w = (request url options, w\<lparr>posts := posts w @ [(url, options)]\<rparr>)"

text \<open>
  \<open>bearerToken\<close> and \<open>action\<close> are optional: \<open>None\<close> is \<^verbatim>\<open>undefined\<close>. The test
  \<^verbatim>\<open>if (bearerToken)\<close> and the default \<^verbatim>\<open>action || ''\<close> go by JavaScript truthiness,
  under which both \<^verbatim>\<open>undefined\<close> and the empty string are false.
\<close>

definition sendSoapRequest ::
  "(string \<Rightarrow> request_options \<Rightarrow> error + response) \<Rightarrow> string \<Rightarrow> string
     \<Rightarrow> string option \<Rightarrow> string option \<Rightarrow> world \<Rightarrow> (error + response) \<times> world" where
  "sendSoapRequest request endpoint payload bearerToken action w =
     (let headers0 =
            [''Content-Type'' \<mapsto> ''text/xml;charset=UTF-8'',
             ''Accept'' \<mapsto> ''text/xml'',
             ''SOAPAction'' \<mapsto> (case action of None \<Rightarrow> [] | Some a \<Rightarrow> if a = [] then [] else a),
             ''User-Agent'' \<mapsto> ''Playwright SOAP Client/1.0''];
          headers1 =
            (case bearerToken of
               None \<Rightarrow> headers0
             | Some tok \<Rightarrow>
                 if tok = [] then headers0
                 else headers0(''Authorization'' \<mapsto> ''Bearer '' @ tok));
          w1 = console_log (''Sending SOAP request to: '' @ endpoint) w
      in case post request endpoint \<lparr>headers = headers1, data = payload\<rparr> w1 of
           (Inr response, w2) \<Rightarrow>
             (Inr response,
              if status response = 403 then
                (let w3 = console_error ''403 Forbidden Error Details:'' w2;
                     w4 = console_error ''- Check if your bearer token is valid and not expired'' w3;
                     w5 = console_error ''- Verify if additional headers are required'' w4;
                     w6 = console_error ''- Ensure your IP address is allowed to access the service'' w5
                 in w6\<lparr>console := console w6 @
                          [ErrorHeaders ''Response headers:'' (headersArray response)]\<rparr>)
              else w2)
         | (Inl err, w2) \<Rightarrow>
             (Inl err,
              w2\<lparr>console := console w2 @ [ErrorThrown ''Error sending SOAP request:'' err]\<rparr>))"

section \<open>Regular expressions\<close>

text \<open>
  \<^verbatim>\<open>extractXmlValue\<close> builds the source text of a regular expression around its second
  argument, hands it to \<^verbatim>\<open>new RegExp\<close> and matches the response against it. The
  embedding covers this part of the pattern language of JavaScript (no flags): a literal
  character, \<^verbatim>\<open>.\<close>, a class \<^verbatim>\<open>[...]\<close> or \<^verbatim>\<open>[^...]\<close> of literal members, a capturing
  group \<^verbatim>\<open>(...)\<close>, and \<^verbatim>\<open>+\<close> after a single-character term. A pattern with other
  syntax is outside the embedding: for it the parser answers \<open>None\<close>, which says nothing
  about what JavaScript does. Inside the embedding the answer is \<open>Some\<close> of an error or a
  value.
\<close>

datatype cset = Lit char | Dot | Class bool "char list"

datatype node = Atom cset | Plus cset | Group nat "node list"

datatype pmode = Normal | ClassStart | InClass bool "char list"

record pstate =
  mode :: pmode
  cur_index :: nat                          \<comment> \<open>number of the group being read, 0 the whole pattern\<close>
  cur_nodes :: "node list"                  \<comment> \<open>its terms so far, last first\<close>
  outer :: "(nat \<times> node list) list"        \<comment> \<open>the groups around it, innermost first\<close>
  opened :: nat                             \<comment> \<open>left parentheses seen\<close>

definition unmodelled_syntax :: "char list" where
  "unmodelled_syntax =
     [CHR 0x5C, CHR ''^'', CHR ''$'', CHR ''*'', CHR ''?'', CHR ''{'', CHR ''}'', CHR ''|'']"

definition class_member :: "char \<Rightarrow> bool \<Rightarrow> char list \<Rightarrow> pstate \<Rightarrow> (error + pstate) option" where
  "class_member c neg ms st =
     (if c = CHR '']'' then
        Some (Inr (st\<lparr>mode := Normal, cur_nodes := Atom (Class neg (rev ms)) # cur_nodes st\<rparr>))
      else if c = CHR 0x5C \<or> c = CHR ''-'' then None
      else Some (Inr (st\<lparr>mode := InClass neg (c # ms)\<rparr>)))"

definition pstep :: "char \<Rightarrow> pstate \<Rightarrow> (error + pstate) option" where
  "pstep c st =
     (case mode st of
        ClassStart \<Rightarrow>
          if c = CHR ''^'' then Some (Inr (st\<lparr>mode := InClass True []\<rparr>))
          else class_member c False [] st
      | InClass neg ms \<Rightarrow> class_member c neg ms st
      | Normal \<Rightarrow>
          if c = CHR ''('' then
            Some (Inr (st\<lparr>cur_index := Suc (opened st), cur_nodes := [],
                           outer := (cur_index st, cur_nodes st) # outer st,
                           opened := Suc (opened st)\<rparr>))
          else if c = CHR '')'' then
            (case outer st of
               [] \<Rightarrow> Some (Inl SyntaxError)
             | (j, ms) # rest \<Rightarrow>
                 Some (Inr (st\<lparr>cur_index := j,
                                cur_nodes := Group (cur_index st) (rev (cur_nodes st)) # ms,
                                outer := rest\<rparr>)))
          else if c = CHR ''['' then Some (Inr (st\<lparr>mode := ClassStart\<rparr>))
          else if c = CHR ''.'' then Some (Inr (st\<lparr>cur_nodes := Atom Dot # cur_nodes st\<rparr>))
          else if c = CHR ''+'' then
            (case cur_nodes st of
               [] \<Rightarrow> Some (Inl SyntaxError)
             | Atom a # ns \<Rightarrow> Some (Inr (st\<lparr>cur_nodes := Plus a # ns\<rparr>))
             | Plus a # ns \<Rightarrow> Some (Inl SyntaxError)
             | Group i ms # ns \<Rightarrow> None)
          else if c \<in> set unmodelled_syntax then None
          else Some (Inr (st\<lparr>cur_nodes := Atom (Lit c) # cur_nodes st\<rparr>)))"

fun parse :: "string \<Rightarrow> pstate \<Rightarrow> (error + node) option" where
  "parse [] st =
     (if mode st = Normal \<and> outer st = [] then
        Some (Inr (Group (cur_index st) (rev (cur_nodes st))))
      else Some (Inl SyntaxError))"
| "parse (c # cs) st =
     (case pstep c st of
        None \<Rightarrow> None
      | Some (Inl e) \<Rightarrow> Some (Inl e)
      | Some (Inr st') \<Rightarrow> parse cs st')"

definition RegExp :: "string \<Rightarrow> (error + node) option" where
  "RegExp pattern =
     parse pattern \<lparr>mode = Normal, cur_index = 0, cur_nodes = [], outer = [], opened = 0\<rparr>"

text \<open>
  Matching is the backtracking search of the language definition: a term maps a state (the
  input still to read, the captures so far) to the states it can end in, the one tried
  first at the head. \<^verbatim>\<open>+\<close> is greedy, so the longest run comes first.
\<close>

definition line_terminator :: "char \<Rightarrow> bool" where
  "line_terminator c = (c = CHR 0x0A \<or> c = CHR 0x0D)"

fun cset_ok :: "cset \<Rightarrow> char \<Rightarrow> bool" where
  "cset_ok (Lit c) x = (x = c)"
| "cset_ok Dot x = (\<not> line_terminator x)"
| "cset_ok (Class neg ms) x = (if neg then x \<notin> set ms else x \<in> set ms)"

fun run :: "cset \<Rightarrow> string \<Rightarrow> string list" where
  "run a [] = []"
| "run a (x # xs) = (if cset_ok a x then run a xs @ [xs] else [])"

type_synonym mstate = "string \<times> (nat \<rightharpoonup> string)"

fun m_node :: "node \<Rightarrow> mstate \<Rightarrow> mstate list"
  and m_seq :: "node list \<Rightarrow> mstate \<Rightarrow> mstate list" where
  "m_node (Atom a) (s, caps) =
     (case s of [] \<Rightarrow> [] | x # r \<Rightarrow> if cset_ok a x then [(r, caps)] else [])"
| "m_node (Plus a) (s, caps) = map (\<lambda>r. (r, caps)) (run a s)"
| "m_node (Group i ns) (s, caps) =
     map (\<lambda>(r, caps'). (r, caps'(i \<mapsto> take (length s - length r) s))) (m_seq ns (s, caps))"
| "m_seq [] st = [st]"
| "m_seq (n # ns) st = concat (map (m_seq ns) (m_node n st))"

text \<open>
  \<^verbatim>\<open>String.prototype.match\<close> with a regular expression that has no \<^verbatim>\<open>g\<close> flag: the
  match at the leftmost start position that has one, as the array of its captures
  (entry 0 the whole match), or \<^verbatim>\<open>null\<close>.
\<close>

fun str_match :: "node \<Rightarrow> string \<Rightarrow> (nat \<rightharpoonup> string) option" where
  "str_match re [] =
     (case m_node re ([], Map.empty) of [] \<Rightarrow> None | (r, caps) # _ \<Rightarrow> Some caps)"
| "str_match re (x # xs) =
     (case m_node re (x # xs, Map.empty) of
        [] \<Rightarrow> str_match re xs
      | (r, caps) # _ \<Rightarrow> Some caps)"

section \<open>Extracting a value\<close>

definition extractXmlValue :: "string \<Rightarrow> string \<Rightarrow> (error + jsval) option" where
  "extractXmlValue xmlResponse xpath =
     (case RegExp (''<'' @ xpath @ ''>([^<]+)</'' @ xpath @ ''>'') of
        None \<Rightarrow> None
      | Some (Inl e) \<Rightarrow> Some (Inl e)
      | Some (Inr regex) \<Rightarrow>
          (case str_match regex xmlResponse of
             None \<Rightarrow> Some (Inr Null)
           | Some m \<Rightarrow> Some (Inr (case m 1 of None \<Rightarrow> Undefined | Some v \<Rightarrow> Str v))))"

section \<open>Library stand-ins for the examples\<close>

text \<open>
  The theorems below hold for every \<open>path_join\<close> and every \<open>compile\<close>. To run them on
  concrete inputs the two parameters are instantiated. \<open>posix_join\<close> is \<^verbatim>\<open>path.join\<close> of
  Node.js on a POSIX host: the non-empty arguments joined by a slash, then normalised
  (empty and \<^verbatim>\<open>.\<close> segments dropped, \<^verbatim>\<open>..\<close> removing the segment before it).
\<close>

fun split_slash :: "string \<Rightarrow> string \<Rightarrow> string list" where
  "split_slash seg [] = [rev seg]"
| "split_slash seg (c # cs) =
     (if c = CHR ''/'' then rev seg # split_slash [] cs else split_slash (c # seg) cs)"

fun normalize_segments :: "bool \<Rightarrow> string list \<Rightarrow> string list \<Rightarrow> string list" where
  "normalize_segments allowAboveRoot [] res = rev res"
| "normalize_segments allowAboveRoot (seg # segs) res =
     (if seg = [] \<or> seg = ''.'' then normalize_segments allowAboveRoot segs res
      else if seg = ''..'' then
        (case res of
           [] \<Rightarrow> normalize_segments allowAboveRoot segs (if allowAboveRoot then [seg] else [])
         | lastSeg # below \<Rightarrow>
             if lastSeg = ''..'' then normalize_segments allowAboveRoot segs (seg # res)
             else normalize_segments allowAboveRoot segs below)
      else normalize_segments allowAboveRoot segs (seg # res))"

fun join_slash :: "string list \<Rightarrow> string" where
  "join_slash [] = []"
| "join_slash [p] = p"
| "join_slash (p # q # ps) = p @ ''/'' @ join_slash (q # ps)"

definition posix_normalize :: "string \<Rightarrow> string" where
  "posix_normalize p =
     (case p of
        [] \<Rightarrow> ''.''
      | c # _ \<Rightarrow>
          (let isAbsolute = (c = CHR ''/'');
               trailingSeparator = (last p = CHR ''/'');
               q = join_slash (normalize_segments (\<not> isAbsolute) (split_slash [] p) [])
           in if q = [] then (if isAbsolute then ''/'' else if trailingSeparator then ''./'' else ''.'')
              else (if isAbsolute then ''/'' else []) @ q @ (if trailingSeparator then ''/'' else [])))"

definition posix_join :: "string list \<Rightarrow> string" where
  "posix_join args =
     (case filter (\<lambda>a. a \<noteq> []) args of
        [] \<Rightarrow> ''.''
      | ps \<Rightarrow> posix_normalize (join_slash ps))"

text \<open>
  Modelled from the spec: \<^verbatim>\<open>Handlebars.compile\<close>, a library that is not part of the
  repository. The specification describes templates as text with \<^verbatim>\<open>{{name}}\<close>
  placeholders, each replaced by the entry of that name; \<open>handlebars\<close> does that, with
  the empty string for a name that has no entry and an error for a placeholder that is
  never closed.
\<close>

fun substitute ::
  "(string \<rightharpoonup> string) \<Rightarrow> string \<Rightarrow> string option \<Rightarrow> string \<Rightarrow> error + string" where
  "substitute d out None [] = Inr out"
| "substitute d out (Some n) [] = Inl (Failure ''Parse error'')"
| "substitute d out None (c # cs) =
     (case cs of
        [] \<Rightarrow> substitute d (out @ [c]) None cs
      | c' # cs' \<Rightarrow>
          if c = CHR ''{'' \<and> c' = CHR ''{'' then substitute d out (Some []) cs'
          else substitute d (out @ [c]) None cs)"
| "substitute d out (Some n) (c # cs) =
     (case cs of
        [] \<Rightarrow> substitute d out (Some (n @ [c])) cs
      | c' # cs' \<Rightarrow>
          if c = CHR ''}'' \<and> c' = CHR ''}'' then
            substitute d (out @ (case d n of None \<Rightarrow> [] | Some v \<Rightarrow> v)) None cs'
          else substitute d out (Some (n @ [c])) cs)"

definition handlebars :: "string \<Rightarrow> (string \<rightharpoonup> string) \<Rightarrow> error + string" where
  "handlebars templateContent d = substitute d [] None templateContent"

definition node_env :: "(string \<rightharpoonup> string) env" where
  "node_env = \<lparr>dirname = ''/repo/utils'', path_join = posix_join, compile = handlebars\<rparr>"

definition weather_template :: string where
  "weather_template = ''<GetWeather><cityCode>{{cityCode}}</cityCode></GetWeather>''"

definition fresh_world :: world where
  "fresh_world =
     \<lparr>files = [''/repo/api/requests/getWeatherRequest.xml'' \<mapsto> weather_template],
      console = [], posts = []\<rparr>"

definition used_world :: world where
  "used_world =
     \<lparr>files = [''/tmp/notes.txt'' \<mapsto> ''x'',
               ''/repo/api/requests/getWeatherRequest.xml'' \<mapsto> weather_template],
      console = [Log ''earlier line''], posts = []\<rparr>"

definition offline :: "string \<Rightarrow> request_options \<Rightarrow> error + response" where
  "offline url options = Inl (Failure ''ECONNREFUSED'')"

section \<open>The extractor as the specification describes it\<close>

text \<open>
  The specification takes the tag name to be a bare element local name, with no namespace
  prefix and no attributes. \<open>bare_name\<close> is the ASCII part of the names of XML without
  the colon: a letter or an underscore, then letters, digits, underscores, hyphens and
  full stops.
\<close>

definition name_start_char :: "char \<Rightarrow> bool" where
  "name_start_char c = (c \<in> set ''ABCDEFGHIJKLMNOPQRSTUVWXYZabcdefghijklmnopqrstuvwxyz_'')"

definition name_char :: "char \<Rightarrow> bool" where
  "name_char c = (name_start_char c \<or> c \<in> set ''0123456789-.'')"

definition bare_name :: "string \<Rightarrow> bool" where
  "bare_name t = (case t of [] \<Rightarrow> False | c # cs \<Rightarrow> name_start_char c \<and> list_all name_char cs)"

text \<open>
  In the specification's words the extractor finds the first occurrence of the opening tag,
  followed by a run of characters other than \<^verbatim>\<open><\<close>, followed by the closing tag, and
  returns the run. \<open>element_text_at\<close> reads such an occurrence at the head of a string,
  with a run of at least one character; \<open>first_element_text\<close> tries the start positions
  from the left.
\<close>

definition element_text_at :: "string \<Rightarrow> string \<Rightarrow> string option" where
  "element_text_at t s =
     (if prefix (''<'' @ t @ ''>'') s then
        (let rest = drop (length (''<'' @ t @ ''>'')) s;
             v = takeWhile (\<lambda>c. c \<noteq> CHR ''<'') rest
         in if v \<noteq> [] \<and> prefix (''</'' @ t @ ''>'') (dropWhile (\<lambda>c. c \<noteq> CHR ''<'') rest)
            then Some v else None)
      else None)"

fun first_element_text :: "string \<Rightarrow> string \<Rightarrow> string option" where
  "first_element_text t [] = None"
| "first_element_text t (x # xs) =
     (case element_text_at t (x # xs) of
        None \<Rightarrow> first_element_text t xs
      | Some v \<Rightarrow> Some v)"

section \<open>What the parser and the matcher do on a tag pattern\<close>

text \<open>
  The functions of this section belong to the proofs. A character is \<open>plain\<close> when the
  parser reads it, outside a class, as a term for one character: itself, or any character
  but a line terminator for the full stop. \<open>tag_regex\<close> is the expression the pattern of
  \<^verbatim>\<open>extractXmlValue\<close> parses to when the tag name is plain throughout, \<open>tag_at\<close> is its
  match at the head of a string (the captured text and the input left over), and
  \<open>find_tag\<close> the captured text of its leftmost match.
\<close>

definition plain :: "char \<Rightarrow> bool" where
  "plain c = (c \<notin> set ''()[+'' \<and> c \<notin> set unmodelled_syntax)"

definition atom_of :: "char \<Rightarrow> node" where
  "atom_of c = Atom (if c = CHR ''.'' then Dot else Lit c)"

definition tag_regex :: "string \<Rightarrow> node" where
  "tag_regex t =
     Group 0 (Atom (Lit CHR ''<'') # map atom_of t @
              [Atom (Lit CHR ''>''), Group 1 [Plus (Class True ''<'')],
               Atom (Lit CHR ''<''), Atom (Lit CHR ''/'')] @ map atom_of t @
              [Atom (Lit CHR ''>'')])"

definition expect :: "char \<Rightarrow> string \<Rightarrow> string option" where
  "expect c s = (case s of [] \<Rightarrow> None | x # r \<Rightarrow> if x = c then Some r else None)"

fun name_match :: "string \<Rightarrow> string \<Rightarrow> string option" where
  "name_match [] s = Some s"
| "name_match (c # cs) [] = None"
| "name_match (c # cs) (x # xs) =
     (if (if c = CHR ''.'' then \<not> line_terminator x else x = c) then name_match cs xs else None)"

definition tag_at :: "string \<Rightarrow> string \<Rightarrow> (string \<times> string) option" where
  "tag_at t s =
     do {
       s1 \<leftarrow> expect CHR ''<'' s;
       s2 \<leftarrow> name_match t s1;
       s3 \<leftarrow> expect CHR ''>'' s2;
       if takeWhile (\<lambda>c. c \<noteq> CHR ''<'') s3 = [] then None
       else do {
         s4 \<leftarrow> expect CHR ''<'' (dropWhile (\<lambda>c. c \<noteq> CHR ''<'') s3);
         s5 \<leftarrow> expect CHR ''/'' s4;
         s6 \<leftarrow> name_match t s5;
         r \<leftarrow> expect CHR ''>'' s6;
         Some (takeWhile (\<lambda>c. c \<noteq> CHR ''<'') s3, r)
       }
     }"

fun find_tag :: "string \<Rightarrow> string \<Rightarrow> string option" where
  "find_tag t [] = None"
| "find_tag t (x # xs) =
     (case tag_at t (x # xs) of None \<Rightarrow> find_tag t xs | Some (v, r) \<Rightarrow> Some v)"

section \<open>Properties of the template renderer\<close>

lemma processSoapTemplate_unfold:
  "processSoapTemplate e templateName d w =
     (case files w (templatePath e templateName) of
        None \<Rightarrow> (Inl (ENOENT (templatePath e templateName)), w)
      | Some content \<Rightarrow> (compile e content d, w))"
  by (simp add: processSoapTemplate_def loadSoapTemplate_def readFileSync_def split: option.splits)

lemma node_env_path:
  "templatePath node_env ''getWeatherRequest'' = ''/repo/api/requests/getWeatherRequest.xml''"
  by (simp add: templatePath_def node_env_def posix_join_def posix_normalize_def)

text \<open>
  Claim C6. Rendering is deterministic and pure: two calls with the same template name and
  the same substitution set, in worlds whose template resource has the same content,
  return the same result (the same text, byte for byte, or the same error), and neither
  call changes the world: the file is read, nothing is written or logged. The theorem
  needs no assumption on the placeholders, so it covers the templates whose placeholders
  all have a key.
\<close>

theorem render_deterministic_pure:
  assumes "files w1 (templatePath e T) = files w2 (templatePath e T)"
  shows "fst (processSoapTemplate e T V w1) = fst (processSoapTemplate e T V w2)
         \<and> snd (processSoapTemplate e T V w1) = w1
         \<and> snd (processSoapTemplate e T V w2) = w2"
  using assms by (simp add: processSoapTemplate_unfold split: option.splits)

theorem render_deterministic_pure_witness:
  "files fresh_world (templatePath node_env ''getWeatherRequest'')
     = files used_world (templatePath node_env ''getWeatherRequest'')
   \<and> fst (processSoapTemplate node_env ''getWeatherRequest'' [''cityCode'' \<mapsto> ''NYC''] fresh_world)
     = fst (processSoapTemplate node_env ''getWeatherRequest'' [''cityCode'' \<mapsto> ''NYC''] used_world)
   \<and> fst (processSoapTemplate node_env ''getWeatherRequest'' [''cityCode'' \<mapsto> ''NYC''] fresh_world)
     = Inr ''<GetWeather><cityCode>NYC</cityCode></GetWeather>''
   \<and> snd (processSoapTemplate node_env ''getWeatherRequest'' [''cityCode'' \<mapsto> ''NYC''] used_world)
     = used_world"
proof -
  have same: "files fresh_world (templatePath node_env ''getWeatherRequest'')
     = files used_world (templatePath node_env ''getWeatherRequest'')"
    by (simp add: node_env_path fresh_world_def used_world_def)
  have rendered: "fst (processSoapTemplate node_env ''getWeatherRequest'' [''cityCode'' \<mapsto> ''NYC''] fresh_world)
     = Inr ''<GetWeather><cityCode>NYC</cityCode></GetWeather>''"
    by (simp add: processSoapTemplate_unfold node_env_path fresh_world_def)
       (simp add: node_env_def handlebars_def weather_template_def)
  from render_deterministic_pure [OF same, of "[''cityCode'' \<mapsto> ''NYC'']"] same rendered
  show ?thesis by simp
qed

text \<open>
  Claim C7. For every template name that resolves to a path with no file, rendering raises
  and returns no string. The error is the one \<^verbatim>\<open>fs.readFileSync\<close> throws for a missing
  file, which is what the specification calls \<open>TemplateNotFound\<close>; it reaches the caller
  as thrown.
\<close>

theorem render_missing_template:
  assumes "files w (templatePath e templateName) = None"
  shows "processSoapTemplate e templateName d w = (Inl (ENOENT (templatePath e templateName)), w)"
  using assms by (simp add: processSoapTemplate_unfold)

theorem render_missing_template_witness:
  "files fresh_world (templatePath node_env ''missing'') = None
   \<and> processSoapTemplate node_env ''missing'' [''cityCode'' \<mapsto> ''NYC''] fresh_world
     = (Inl (ENOENT ''/repo/api/requests/missing.xml''), fresh_world)"
proof -
  have p: "templatePath node_env ''missing'' = ''/repo/api/requests/missing.xml''"
    by (simp add: templatePath_def node_env_def posix_join_def posix_normalize_def)
  have absent: "files fresh_world (templatePath node_env ''missing'') = None"
    by (simp add: p fresh_world_def)
  from render_missing_template [OF absent, of "[''cityCode'' \<mapsto> ''NYC'']"] absent p
  show ?thesis by simp
qed

section \<open>Properties of the sender\<close>

lemma send_unfold:
  "sendSoapRequest request endpoint payload bearerToken action w =
     (let opts = \<lparr>headers =
                   (let h = [''Content-Type'' \<mapsto> ''text/xml;charset=UTF-8'',
                             ''Accept'' \<mapsto> ''text/xml'',
                             ''SOAPAction'' \<mapsto> (case action of None \<Rightarrow> [] | Some a \<Rightarrow> a),
                             ''User-Agent'' \<mapsto> ''Playwright SOAP Client/1.0'']
                    in case bearerToken of
                         None \<Rightarrow> h
                       | Some tok \<Rightarrow> if tok = [] then h else h(''Authorization'' \<mapsto> ''Bearer '' @ tok)),
                 data = payload\<rparr>;
          w2 = w\<lparr>console := console w @ [Log (''Sending SOAP request to: '' @ endpoint)],
                 posts := posts w @ [(endpoint, opts)]\<rparr>
      in case request endpoint opts of
           Inr response \<Rightarrow>
             (Inr response,
              if status response = 403 then
                w2\<lparr>console := console w2 @
                     [Error ''403 Forbidden Error Details:'',
                      Error ''- Check if your bearer token is valid and not expired'',
                      Error ''- Verify if additional headers are required'',
                      Error ''- Ensure your IP address is allowed to access the service'',
                      ErrorHeaders ''Response headers:'' (headersArray response)]\<rparr>
              else w2)
         | Inl err \<Rightarrow>
             (Inl err,
              w2\<lparr>console := console w2 @ [ErrorThrown ''Error sending SOAP request:'' err]\<rparr>))"
  by (cases action; cases bearerToken)
     (auto simp: sendSoapRequest_def post_def console_log_def console_error_def Let_def
           split: sum.splits)

lemma send_posts:
  "posts (snd (sendSoapRequest request endpoint payload bearerToken action w)) =
     posts w @
     [(endpoint,
       \<lparr>headers =
          (let h = [''Content-Type'' \<mapsto> ''text/xml;charset=UTF-8'',
                    ''Accept'' \<mapsto> ''text/xml'',
                    ''SOAPAction'' \<mapsto> (case action of None \<Rightarrow> [] | Some a \<Rightarrow> a),
                    ''User-Agent'' \<mapsto> ''Playwright SOAP Client/1.0'']
           in case bearerToken of
                None \<Rightarrow> h
              | Some tok \<Rightarrow> if tok = [] then h else h(''Authorization'' \<mapsto> ''Bearer '' @ tok)),
        data = payload\<rparr>)]"
  by (simp add: send_unfold Let_def split: sum.splits)

text \<open>
  Claim C4. With the bearer token \<^verbatim>\<open>tok123\<close>, whatever the endpoint, the payload and the
  action, the one request handed to the transport has the header \<open>Authorization\<close> equal
  to \<^verbatim>\<open>Bearer tok123\<close>; with no bearer token it has no \<open>Authorization\<close> entry.
\<close>

theorem send_authorization_header:
  "(\<exists>opts. posts (snd (sendSoapRequest request endpoint payload (Some ''tok123'') action w))
             = posts w @ [(endpoint, opts)]
           \<and> headers opts ''Authorization'' = Some ''Bearer tok123'')
   \<and> (\<exists>opts. posts (snd (sendSoapRequest request endpoint payload None action w))
             = posts w @ [(endpoint, opts)]
           \<and> headers opts ''Authorization'' = None
           \<and> ''Authorization'' \<notin> dom (headers opts))"
  by (simp add: send_posts Let_def dom_def)

text \<open>
  Claim C9. An empty bearer token is treated as an absent one: the call behaves exactly as
  the call without a token, the request has no \<open>Authorization\<close> entry, and for no token
  at all is the header \<^verbatim>\<open>Authorization: Bearer \<close> (with nothing after the blank) sent.
\<close>

theorem send_empty_token:
  "sendSoapRequest request endpoint payload (Some []) action w
     = sendSoapRequest request endpoint payload None action w
   \<and> (\<exists>opts. posts (snd (sendSoapRequest request endpoint payload (Some []) action w))
             = posts w @ [(endpoint, opts)]
           \<and> ''Authorization'' \<notin> dom (headers opts))
   \<and> (\<exists>opts. posts (snd (sendSoapRequest request endpoint payload bearerToken action w))
             = posts w @ [(endpoint, opts)]
           \<and> headers opts ''Authorization'' \<noteq> Some ''Bearer '')"
proof (intro conjI)
  show "sendSoapRequest request endpoint payload (Some []) action w
     = sendSoapRequest request endpoint payload None action w"
    by (simp add: send_unfold)
  show "\<exists>opts. posts (snd (sendSoapRequest request endpoint payload (Some []) action w))
             = posts w @ [(endpoint, opts)]
           \<and> ''Authorization'' \<notin> dom (headers opts)"
    by (simp add: send_posts Let_def dom_def)
  show "\<exists>opts. posts (snd (sendSoapRequest request endpoint payload bearerToken action w))
             = posts w @ [(endpoint, opts)]
           \<and> headers opts ''Authorization'' \<noteq> Some ''Bearer ''"
    by (cases bearerToken) (simp_all add: send_posts Let_def)
qed

text \<open>
  Claim C5. The result of a call is the outcome of the transport call, as it is: the error
  the transport threw, thrown again, or the response it returned, whatever its status
  code (also 403, which only adds lines to the console). So the call raises exactly when
  the transport fails. The transport is called once, with the payload as the body, and
  no file is touched.
\<close>

theorem send_passes_outcome_through:
  "\<exists>opts. fst (sendSoapRequest request endpoint payload bearerToken action w) = request endpoint opts
         \<and> data opts = payload
         \<and> posts (snd (sendSoapRequest request endpoint payload bearerToken action w))
             = posts w @ [(endpoint, opts)]
         \<and> files (snd (sendSoapRequest request endpoint payload bearerToken action w)) = files w"
  by (simp add: send_unfold Let_def split: sum.splits)

text \<open>
  Claim C3, as stated, fails: \<^verbatim>\<open>sendSoapRequest\<close> has no parameter for extra headers.
  Its optional arguments are the bearer token and the action, and no choice of them sends
  a \<open>Content-Type\<close> other than the default one, so a caller has no way to override it.
\<close>

theorem send_extra_headers_counterexample:
  "\<not> (\<exists>bearerToken action opts.
        posts (snd (sendSoapRequest offline ''https://example.com/soap'' ''<Envelope/>''
                      bearerToken action fresh_world))
          = [(''https://example.com/soap'', opts)]
        \<and> headers opts ''Content-Type'' = Some ''application/soap+xml'')"
  by (simp add: send_posts fresh_world_def Let_def split: option.splits)

text \<open>
  Claim C3, amended. The header set of the request is determined by the bearer token and
  the action alone: \<open>Content-Type\<close>, \<open>Accept\<close>, \<open>SOAPAction\<close> (the action, or the empty
  string) and \<open>User-Agent\<close> with their fixed values, and, set last, \<open>Authorization\<close> when
  a non-empty token is given. There are no other entries.
\<close>

theorem send_header_set:
  "\<exists>opts. posts (snd (sendSoapRequest request endpoint payload bearerToken action w))
           = posts w @ [(endpoint, opts)]
         \<and> dom (headers opts) =
             {''Content-Type'', ''Accept'', ''SOAPAction'', ''User-Agent''} \<union>
             (case bearerToken of None \<Rightarrow> {} | Some tok \<Rightarrow> if tok = [] then {} else {''Authorization''})
         \<and> headers opts ''Content-Type'' = Some ''text/xml;charset=UTF-8''
         \<and> headers opts ''Accept'' = Some ''text/xml''
         \<and> headers opts ''SOAPAction'' = Some (case action of None \<Rightarrow> [] | Some a \<Rightarrow> a)
         \<and> headers opts ''User-Agent'' = Some ''Playwright SOAP Client/1.0''
         \<and> headers opts ''Authorization'' =
             (case bearerToken of None \<Rightarrow> None
              | Some tok \<Rightarrow> if tok = [] then None else Some (''Bearer '' @ tok))"
  by (cases bearerToken) (auto simp: send_posts Let_def)

section \<open>Properties of the extractor\<close>

subsection \<open>The pattern of a plain tag name\<close>

lemma pstep_plain:
  "plain c \<Longrightarrow> mode st = Normal \<Longrightarrow>
     pstep c st = Some (Inr (st\<lparr>cur_nodes := atom_of c # cur_nodes st\<rparr>))"
  by (auto simp: pstep_def plain_def atom_of_def unmodelled_syntax_def)

lemma parse_plain:
  "list_all plain t \<Longrightarrow> mode st = Normal \<Longrightarrow>
     parse (t @ rest) st = parse rest (st\<lparr>cur_nodes := rev (map atom_of t) @ cur_nodes st\<rparr>)"
proof (induction t arbitrary: st)
  case Nil
  then show ?case by simp
next
  case (Cons c t)
  then show ?case by (simp add: pstep_plain)
qed

lemma RegExp_tag:
  assumes "list_all plain t"
  shows "RegExp (''<'' @ t @ ''>([^<]+)</'' @ t @ ''>'') = Some (Inr (tag_regex t))"
proof -
  let ?st0 = "\<lparr>mode = Normal, cur_index = 0, cur_nodes = [], outer = [], opened = 0\<rparr>"
  let ?st1 = "\<lparr>mode = Normal, cur_index = 0, cur_nodes = rev (map atom_of t) @ [Atom (Lit CHR ''<'')], outer = [], opened = 0\<rparr>"
  let ?mid = "[Atom (Lit CHR ''/''), Atom (Lit CHR ''<''), Group 1 [Plus (Class True ''<'')], Atom (Lit CHR ''>'')] @ rev (map atom_of t) @ [Atom (Lit CHR ''<'')]"
  let ?st2 = "\<lparr>mode = Normal, cur_index = 0, cur_nodes = ?mid, outer = [], opened = 1\<rparr>"
  have a: "parse (''<'' @ t @ ''>([^<]+)</'' @ t @ ''>'') ?st0 = parse (''>([^<]+)</'' @ t @ ''>'') ?st1"
    using parse_plain [OF assms, of "\<lparr>mode = Normal, cur_index = 0, cur_nodes = [Atom (Lit CHR ''<'')], outer = [], opened = 0\<rparr>" "''>([^<]+)</'' @ t @ ''>''"]
    by (simp add: pstep_def unmodelled_syntax_def)
  have b: "parse (''>([^<]+)</'' @ t @ ''>'') ?st1 = parse (t @ ''>'') ?st2"
    by (simp add: pstep_def unmodelled_syntax_def class_member_def)
  have c: "parse (t @ ''>'') ?st2 = Some (Inr (tag_regex t))"
    using parse_plain [OF assms, of ?st2 "''>''"]
    by (simp add: pstep_def unmodelled_syntax_def tag_regex_def)
  show ?thesis unfolding RegExp_def using a b c by simp
qed

lemma name_char_plain: "name_char c \<Longrightarrow> plain c"
  by (auto simp: name_char_def name_start_char_def plain_def unmodelled_syntax_def)

lemma bare_name_plain: "bare_name t \<Longrightarrow> list_all plain t"
  by (cases t) (auto simp: bare_name_def name_char_def list_all_iff intro: name_char_plain)

subsection \<open>Matching the pattern\<close>

lemma concat_map_concat:
  "concat (map (\<lambda>x. concat (map f (g x))) xs) = concat (map f (concat (map g xs)))"
  by (induction xs) simp_all

lemma m_seq_append:
  "m_seq (ms @ ns) st = concat (map (m_seq ns) (m_seq ms st))"
proof (induction ms arbitrary: st)
  case Nil
  show ?case by simp
next
  case (Cons m ms)
  have "m_seq (ms @ ns) = (\<lambda>st. concat (map (m_seq ns) (m_seq ms st)))"
    by (rule ext) (rule Cons.IH)
  then show ?case by (simp add: concat_map_concat)
qed

lemma m_seq_lit:
  "m_seq (Atom (Lit c) # ns) (s, caps) =
     (case expect c s of None \<Rightarrow> [] | Some r \<Rightarrow> m_seq ns (r, caps))"
  by (cases s) (simp_all add: expect_def)

lemma m_seq_atom_of:
  "m_seq (atom_of c # ns) (s, caps) =
     (case name_match [c] s of None \<Rightarrow> [] | Some r \<Rightarrow> m_seq ns (r, caps))"
  by (cases s) (simp_all add: atom_of_def)

lemma name_match_Cons:
  "name_match (c # cs) s = (case name_match [c] s of None \<Rightarrow> None | Some r \<Rightarrow> name_match cs r)"
  by (cases s) simp_all

lemma m_seq_name:
  "m_seq (map atom_of t @ ns) (s, caps) =
     (case name_match t s of None \<Rightarrow> [] | Some r \<Rightarrow> m_seq ns (r, caps))"
proof (induction t arbitrary: s)
  case Nil
  show ?case by simp
next
  case (Cons c t)
  show ?case
    by (simp only: list.map append_Cons m_seq_atom_of Cons.IH name_match_Cons [of c t s])
       (simp split: option.splits)
qed

lemma concat_run:
  assumes "\<And>r. expect CHR ''<'' r = None \<Longrightarrow> G r = []"
  shows "concat (map G (run (Class True ''<'') s)) =
           (if takeWhile (\<lambda>c. c \<noteq> CHR ''<'') s = [] then []
            else G (dropWhile (\<lambda>c. c \<noteq> CHR ''<'') s))"
proof (induction s)
  case Nil
  show ?case by simp
next
  case (Cons x xs)
  show ?case
  proof (cases "x = CHR ''<''")
    case True
    then show ?thesis by simp
  next
    case False
    show ?thesis
    proof (cases "takeWhile (\<lambda>c. c \<noteq> CHR ''<'') xs = []")
      case True
      then have "dropWhile (\<lambda>c. c \<noteq> CHR ''<'') xs = xs"
        by (cases xs) (auto split: if_splits)
      with True False Cons.IH show ?thesis by simp
    next
      case nonempty: False
      then have "expect CHR ''<'' xs = None"
        by (cases xs) (auto simp: expect_def split: if_splits)
      then have "G xs = []" by (rule assms)
      with nonempty False Cons.IH show ?thesis by simp
    qed
  qed
qed

lemma length_minus_dropWhile:
  "take (length s - length (dropWhile P s)) s = takeWhile P s"
proof -
  have "length s - length (dropWhile P s) = length (takeWhile P s)"
    by (metis add_diff_cancel_right' length_append takeWhile_dropWhile_id)
  then show ?thesis by (simp add: takeWhile_eq_take [symmetric])
qed

lemma m_seq_text:
  "m_seq (Group 1 [Plus (Class True ''<'')] # Atom (Lit CHR ''<'') # ns) (s, caps) =
     (if takeWhile (\<lambda>c. c \<noteq> CHR ''<'') s = [] then []
      else case expect CHR ''<'' (dropWhile (\<lambda>c. c \<noteq> CHR ''<'') s) of
             None \<Rightarrow> []
           | Some r \<Rightarrow> m_seq ns (r, caps(1 \<mapsto> takeWhile (\<lambda>c. c \<noteq> CHR ''<'') s)))"
proof -
  let ?G = "\<lambda>r. m_seq (Atom (Lit CHR ''<'') # ns) (r, caps(1 \<mapsto> take (length s - length r) s))"
  have "m_seq (Group 1 [Plus (Class True ''<'')] # Atom (Lit CHR ''<'') # ns) (s, caps) =
          concat (map ?G (run (Class True ''<'') s))"
    by (simp add: comp_def del: m_seq.simps(2)) (simp add: comp_def)
  also have "\<dots> = (if takeWhile (\<lambda>c. c \<noteq> CHR ''<'') s = [] then []
            else ?G (dropWhile (\<lambda>c. c \<noteq> CHR ''<'') s))"
    by (rule concat_run) (simp add: m_seq_lit del: m_seq.simps)
  finally have e: "m_seq (Group 1 [Plus (Class True ''<'')] # Atom (Lit CHR ''<'') # ns) (s, caps) =
      (if takeWhile (\<lambda>c. c \<noteq> CHR ''<'') s = [] then []
       else ?G (dropWhile (\<lambda>c. c \<noteq> CHR ''<'') s))" .
  show ?thesis unfolding e by (simp only: m_seq_lit length_minus_dropWhile)
qed

lemma m_node_tag:
  "m_node (tag_regex t) (s, Map.empty) =
     (case tag_at t s of
        None \<Rightarrow> []
      | Some (v, r) \<Rightarrow> [(r, [1 \<mapsto> v, 0 \<mapsto> take (length s - length r) s])])"
proof -
  let ?tail = "map atom_of t @ [Atom (Lit CHR ''>'')]"
  have close: "m_seq ?tail (u, caps) =
      (case name_match t u of None \<Rightarrow> []
       | Some s6 \<Rightarrow> (case expect CHR ''>'' s6 of None \<Rightarrow> [] | Some r \<Rightarrow> [(r, caps)]))" for u caps
    by (simp only: m_seq_name m_seq_lit m_seq.simps(1))
  have body: "m_seq (Atom (Lit CHR ''<'') # map atom_of t @
              [Atom (Lit CHR ''>''), Group 1 [Plus (Class True ''<'')],
               Atom (Lit CHR ''<''), Atom (Lit CHR ''/'')] @ ?tail) (s, Map.empty) =
      (case tag_at t s of None \<Rightarrow> [] | Some (v, r) \<Rightarrow> [(r, [1 \<mapsto> v])])"
    by (simp only: m_seq_lit m_seq_name append_Cons append_Nil m_seq_text close tag_at_def)
       (simp split: option.splits Option.bind_splits)
  show ?thesis
    unfolding tag_regex_def m_node.simps
    by (simp only: body) (simp split: option.splits)
qed

lemma tag_at_Nil [simp]: "tag_at t [] = None"
  by (simp add: tag_at_def expect_def)

lemma str_match_tag:
  "map_option (\<lambda>m. m 1) (str_match (tag_regex t) s) = map_option Some (find_tag t s)"
proof (induction s)
  case Nil
  show ?case by (simp add: m_node_tag del: m_node.simps)
next
  case (Cons x xs)
  then show ?case
    by (cases "tag_at t (x # xs)") (auto simp: m_node_tag simp del: m_node.simps)
qed

lemma extract_tag:
  assumes "list_all plain t"
  shows "extractXmlValue xml t =
           Some (Inr (case find_tag t xml of None \<Rightarrow> Null | Some v \<Rightarrow> Str v))"
  using str_match_tag [of t xml]
  unfolding extractXmlValue_def RegExp_tag [OF assms]
  by (cases "str_match (tag_regex t) xml"; cases "find_tag t xml") auto

lemma tag_at_nonempty: "tag_at t s = Some (v, r) \<Longrightarrow> v \<noteq> []"
  by (auto simp: tag_at_def split: Option.bind_splits if_splits)

lemma find_tag_nonempty: "find_tag t s = Some v \<Longrightarrow> v \<noteq> []"
  by (induction s) (auto split: option.splits dest: tag_at_nonempty)

lemma tag_at_not_lt: "x \<noteq> CHR ''<'' \<Longrightarrow> tag_at t (x # xs) = None"
  by (simp add: tag_at_def expect_def)

lemma find_tag_skip:
  "\<forall>c\<in>set a. c \<noteq> CHR ''<'' \<Longrightarrow> find_tag t (a @ b) = find_tag t b"
  by (induction a) (simp_all add: tag_at_not_lt)

lemma name_match_self: "\<forall>c\<in>set t. \<not> line_terminator c \<Longrightarrow> name_match t (t @ r) = Some r"
  by (induction t) auto

lemma name_char_facts:
  "name_char c \<Longrightarrow> c \<noteq> CHR ''<'' \<and> c \<noteq> CHR ''>'' \<and> c \<noteq> CHR ''/'' \<and> \<not> line_terminator c"
  by (auto simp: name_char_def name_start_char_def line_terminator_def)

lemma bare_name_chars: "bare_name t \<Longrightarrow> \<forall>c\<in>set t. name_char c"
  by (cases t) (auto simp: bare_name_def name_char_def list_all_iff)

lemma find_tag_empty_element:
  assumes "bare_name t"
  shows "find_tag t (''<'' @ t @ ''></'' @ t @ ''>'') = None"
proof -
  from assms obtain c cs where t: "t = c # cs" and c: "name_start_char c"
    by (cases t) (auto simp: bare_name_def)
  have chars: "\<forall>x\<in>set t. x \<noteq> CHR ''<'' \<and> x \<noteq> CHR ''>'' \<and> x \<noteq> CHR ''/'' \<and> \<not> line_terminator x"
    using bare_name_chars [OF assms] name_char_facts by blast
  have first: "tag_at t (''<'' @ t @ ''></'' @ t @ ''>'') = None"
    using chars by (simp add: tag_at_def expect_def name_match_self)
  have "c \<noteq> CHR ''.'' \<and> CHR ''/'' \<noteq> c"
    using c by (auto simp: name_start_char_def)
  then have second: "tag_at t (''</'' @ t @ ''>'') = None"
    by (simp add: tag_at_def expect_def t)
  have "find_tag t (''<'' @ t @ ''></'' @ t @ ''>'') = find_tag t ((t @ ''>'') @ ''</'' @ t @ ''>'')"
    using first by simp
  also have "\<dots> = find_tag t (''</'' @ t @ ''>'')"
    by (rule find_tag_skip) (use chars in auto)
  also have "\<dots> = find_tag t ((''/'' @ t @ ''>'') @ [])"
    using second by simp
  also have "\<dots> = find_tag t []"
    by (rule find_tag_skip) (use chars in auto)
  finally show ?thesis by simp
qed

lemma expect_Some_iff: "expect c s = Some r \<longleftrightarrow> s = c # r"
  by (cases s) (auto simp: expect_def)

lemma name_match_Some_iff:
  "CHR ''.'' \<notin> set t \<Longrightarrow> name_match t s = Some r \<longleftrightarrow> s = t @ r"
  by (induction t s rule: name_match.induct) auto

lemma tag_at_Some_iff:
  assumes "CHR ''.'' \<notin> set t"
  shows "tag_at t s = Some (v, r) \<longleftrightarrow>
           (\<exists>s3. s = ''<'' @ t @ ''>'' @ s3
                \<and> v = takeWhile (\<lambda>c. c \<noteq> CHR ''<'') s3 \<and> v \<noteq> []
                \<and> dropWhile (\<lambda>c. c \<noteq> CHR ''<'') s3 = ''</'' @ t @ ''>'' @ r)"
  unfolding tag_at_def
  by (auto simp: bind_eq_Some_conv expect_Some_iff name_match_Some_iff [OF assms] split: if_splits)

lemma element_text_at_Some_iff:
  "element_text_at t s = Some v \<longleftrightarrow>
     (\<exists>s3 r. s = ''<'' @ t @ ''>'' @ s3
            \<and> v = takeWhile (\<lambda>c. c \<noteq> CHR ''<'') s3 \<and> v \<noteq> []
            \<and> dropWhile (\<lambda>c. c \<noteq> CHR ''<'') s3 = ''</'' @ t @ ''>'' @ r)"
  unfolding element_text_at_def Let_def
  by (auto simp: prefix_def)

lemma tag_at_literal:
  assumes "CHR ''.'' \<notin> set t"
  shows "map_option fst (tag_at t s) = element_text_at t s"
proof (cases "tag_at t s")
  case None
  have "element_text_at t s = None"
  proof (rule ccontr)
    assume "element_text_at t s \<noteq> None"
    then obtain v where "element_text_at t s = Some v" by auto
    then obtain r where "tag_at t s = Some (v, r)"
      unfolding element_text_at_Some_iff tag_at_Some_iff [OF assms] by blast
    with None show False by simp
  qed
  with None show ?thesis by simp
next
  case (Some p)
  then obtain v r where "tag_at t s = Some (v, r)" by (cases p) auto
  moreover from this have "element_text_at t s = Some v"
    unfolding element_text_at_Some_iff tag_at_Some_iff [OF assms] by blast
  ultimately show ?thesis by simp
qed

lemma find_tag_literal:
  assumes "CHR ''.'' \<notin> set t"
  shows "find_tag t s = first_element_text t s"
proof (induction s)
  case Nil
  show ?case by simp
next
  case (Cons x xs)
  have "element_text_at t (x # xs) = map_option fst (tag_at t (x # xs))"
    by (simp add: tag_at_literal [OF assms])
  with Cons show ?case
    by (cases "tag_at t (x # xs)") auto
qed


lemma element_text_at_Nil [simp]: "element_text_at t [] = None"
  by (simp add: element_text_at_def)

lemma element_text_at_iff:
  "element_text_at t s = Some v \<longleftrightarrow>
     v \<noteq> [] \<and> CHR ''<'' \<notin> set v \<and> prefix (''<'' @ t @ ''>'' @ v @ ''</'' @ t @ ''>'') s"
proof
  assume "element_text_at t s = Some v"
  then obtain s3 r where s: "s = ''<'' @ t @ ''>'' @ s3"
    and v: "v = takeWhile (\<lambda>c. c \<noteq> CHR ''<'') s3" "v \<noteq> []"
    and d: "dropWhile (\<lambda>c. c \<noteq> CHR ''<'') s3 = ''</'' @ t @ ''>'' @ r"
    unfolding element_text_at_Some_iff by blast
  have "s3 = v @ ''</'' @ t @ ''>'' @ r"
    using takeWhile_dropWhile_id [of "\<lambda>c. c \<noteq> CHR ''<''" s3] v d by simp
  moreover have "CHR ''<'' \<notin> set v"
    using v(1) by (auto dest: set_takeWhileD)
  ultimately show "v \<noteq> [] \<and> CHR ''<'' \<notin> set v \<and> prefix (''<'' @ t @ ''>'' @ v @ ''</'' @ t @ ''>'') s"
    using s v(2) by (simp add: prefix_def)
next
  assume a: "v \<noteq> [] \<and> CHR ''<'' \<notin> set v \<and> prefix (''<'' @ t @ ''>'' @ v @ ''</'' @ t @ ''>'') s"
  then obtain post where s: "s = ''<'' @ t @ ''>'' @ (v @ ''</'' @ t @ ''>'' @ post)"
    by (auto simp: prefix_def)
  have nolt: "\<forall>x\<in>set v. x \<noteq> CHR ''<''" using a by auto
  have tw: "takeWhile (\<lambda>c. c \<noteq> CHR ''<'') (v @ ''</'' @ t @ ''>'' @ post) = v"
    using nolt by simp
  have dw: "dropWhile (\<lambda>c. c \<noteq> CHR ''<'') (v @ ''</'' @ t @ ''>'' @ post) = ''</'' @ t @ ''>'' @ post"
    using nolt by simp
  show "element_text_at t s = Some v"
    unfolding element_text_at_Some_iff
    by (intro exI [of _ "v @ ''</'' @ t @ ''>'' @ post"] exI [of _ post] conjI)
       (use s a tw dw in simp_all)
qed

lemma first_element_text_None_iff:
  "first_element_text t s = None \<longleftrightarrow> (\<forall>pre suf. s = pre @ suf \<longrightarrow> element_text_at t suf = None)"
proof (induction s)
  case Nil
  show ?case by simp
next
  case (Cons x xs)
  show ?case
    by (auto simp: Cons.IH Cons_eq_append_conv split: option.splits)
qed

lemma first_element_text_Some_iff:
  "first_element_text t s = Some v \<longleftrightarrow>
     (\<exists>pre suf. s = pre @ suf \<and> element_text_at t suf = Some v
        \<and> (\<forall>pre' suf'. s = pre' @ suf' \<and> length pre' < length pre \<longrightarrow> element_text_at t suf' = None))"
proof (induction s)
  case Nil
  show ?case by simp
next
  case (Cons x xs)
  show ?case
  proof (cases "element_text_at t (x # xs)")
    case None
    have "first_element_text t (x # xs) = Some v \<longleftrightarrow> first_element_text t xs = Some v"
      using None by simp
    also have "\<dots> \<longleftrightarrow> (\<exists>pre suf. xs = pre @ suf \<and> element_text_at t suf = Some v
        \<and> (\<forall>pre' suf'. xs = pre' @ suf' \<and> length pre' < length pre \<longrightarrow> element_text_at t suf' = None))"
      by (rule Cons.IH)
    also have "\<dots> \<longleftrightarrow> (\<exists>pre suf. x # xs = pre @ suf \<and> element_text_at t suf = Some v
        \<and> (\<forall>pre' suf'. x # xs = pre' @ suf' \<and> length pre' < length pre \<longrightarrow> element_text_at t suf' = None))"
      (is "?L \<longleftrightarrow> ?R")
    proof
      assume ?L
      then obtain pre suf where p: "xs = pre @ suf" "element_text_at t suf = Some v"
        and m: "\<forall>pre' suf'. xs = pre' @ suf' \<and> length pre' < length pre \<longrightarrow> element_text_at t suf' = None"
        by blast
      have "\<forall>pre' suf'. x # xs = pre' @ suf' \<and> length pre' < length (x # pre) \<longrightarrow> element_text_at t suf' = None"
        using m None by (auto simp: Cons_eq_append_conv)
      with p show ?R by (intro exI [of _ "x # pre"] exI [of _ suf]) simp
    next
      assume ?R
      then obtain pre suf where p: "x # xs = pre @ suf" "element_text_at t suf = Some v"
        and m: "\<forall>pre' suf'. x # xs = pre' @ suf' \<and> length pre' < length pre \<longrightarrow> element_text_at t suf' = None"
        by blast
      from p None obtain pre0 where pre: "pre = x # pre0" "xs = pre0 @ suf"
        by (cases pre) auto
      have "\<forall>pre' suf'. xs = pre' @ suf' \<and> length pre' < length pre0 \<longrightarrow> element_text_at t suf' = None"
      proof (intro allI impI)
        fix pre' suf' assume "xs = pre' @ suf' \<and> length pre' < length pre0"
        then have "x # xs = (x # pre') @ suf' \<and> length (x # pre') < length pre"
          using pre by simp
        with m show "element_text_at t suf' = None" by blast
      qed
      with pre p show ?L by blast
    qed
    finally show ?thesis .
  next
    case (Some u)
    have "first_element_text t (x # xs) = Some v \<longleftrightarrow> u = v"
      using Some by simp
    also have "\<dots> \<longleftrightarrow> (\<exists>pre suf. x # xs = pre @ suf \<and> element_text_at t suf = Some v
        \<and> (\<forall>pre' suf'. x # xs = pre' @ suf' \<and> length pre' < length pre \<longrightarrow> element_text_at t suf' = None))"
      (is "_ \<longleftrightarrow> ?R")
    proof
      assume "u = v"
      with Some show ?R by (intro exI [of _ "[]"] exI [of _ "x # xs"]) simp
    next
      assume ?R
      then obtain pre suf where p: "x # xs = pre @ suf" "element_text_at t suf = Some v"
        and m: "\<forall>pre' suf'. x # xs = pre' @ suf' \<and> length pre' < length pre \<longrightarrow> element_text_at t suf' = None"
        by blast
      have "pre = []"
      proof (rule ccontr)
        assume "pre \<noteq> []"
        then have "x # xs = [] @ (x # xs) \<and> length ([]::string) < length pre" by simp
        with m have "element_text_at t (x # xs) = None" by blast
        with Some show False by simp
      qed
      with p Some show "u = v" by simp
    qed
    finally show ?thesis .
  qed
qed

lemma first_element_text_absent:
  "first_element_text t s = None \<longleftrightarrow>
     \<not> (\<exists>pre v post. s = pre @ ''<'' @ t @ ''>'' @ v @ ''</'' @ t @ ''>'' @ post
            \<and> v \<noteq> [] \<and> CHR ''<'' \<notin> set v)"
proof
  assume none: "first_element_text t s = None"
  show "\<not> (\<exists>pre v post. s = pre @ ''<'' @ t @ ''>'' @ v @ ''</'' @ t @ ''>'' @ post
            \<and> v \<noteq> [] \<and> CHR ''<'' \<notin> set v)"
  proof
    assume "\<exists>pre v post. s = pre @ ''<'' @ t @ ''>'' @ v @ ''</'' @ t @ ''>'' @ post
            \<and> v \<noteq> [] \<and> CHR ''<'' \<notin> set v"
    then obtain pre v post where s: "s = pre @ (''<'' @ t @ ''>'' @ v @ ''</'' @ t @ ''>'') @ post"
      and v: "v \<noteq> []" "CHR ''<'' \<notin> set v"
      by auto
    have "element_text_at t ((''<'' @ t @ ''>'' @ v @ ''</'' @ t @ ''>'') @ post) = Some v"
      unfolding element_text_at_iff using v by (simp only: prefixI [OF refl] simp_thms)
    with none s show False
      unfolding first_element_text_None_iff by (metis option.distinct(1))
  qed
next
  assume no: "\<not> (\<exists>pre v post. s = pre @ ''<'' @ t @ ''>'' @ v @ ''</'' @ t @ ''>'' @ post
            \<and> v \<noteq> [] \<and> CHR ''<'' \<notin> set v)"
  show "first_element_text t s = None"
    unfolding first_element_text_None_iff
  proof (intro allI impI)
    fix pre suf assume s: "s = pre @ suf"
    show "element_text_at t suf = None"
    proof (rule ccontr)
      assume "element_text_at t suf \<noteq> None"
      then obtain v where "element_text_at t suf = Some v" by auto
      then obtain post where "v \<noteq> []" "CHR ''<'' \<notin> set v"
        "suf = (''<'' @ t @ ''>'' @ v @ ''</'' @ t @ ''>'') @ post"
        unfolding element_text_at_iff prefix_def by blast
      with s no show False by auto
    qed
  qed
qed

lemma first_element_text_present:
  assumes "first_element_text t s = Some v"
  shows "\<exists>pre post. s = pre @ ''<'' @ t @ ''>'' @ v @ ''</'' @ t @ ''>'' @ post
           \<and> v \<noteq> [] \<and> CHR ''<'' \<notin> set v"
proof -
  from assms obtain pre suf where s: "s = pre @ suf" and e: "element_text_at t suf = Some v"
    unfolding first_element_text_Some_iff by blast
  from e obtain post where "v \<noteq> []" "CHR ''<'' \<notin> set v"
    "suf = (''<'' @ t @ ''>'' @ v @ ''</'' @ t @ ''>'') @ post"
    unfolding element_text_at_iff prefix_def by blast
  with s show ?thesis by auto
qed

subsection \<open>The claims on the extractor\<close>

text \<open>
  Claim C1, as stated, fails for a tag name with a full stop, which is a legal character
  of an element name: the name goes into the pattern as it is, and there the full stop
  stands for any character. The response below has no element \<^verbatim>\<open>a.b\<close> anywhere, and
  the call still returns a string.
\<close>

theorem extract_dot_counterexample:
  "bare_name ''a.b''
   \<and> first_element_text ''a.b'' ''<aXb>v</aXb>'' = None
   \<and> extractXmlValue ''<aXb>v</aXb>'' ''a.b'' = Some (Inr (Str ''v''))"
  by code_simp

text \<open>
  Claim C1, amended. For every response and every bare tag name \<open>t\<close> without a full stop,
  the call returns \<^verbatim>\<open>null\<close> when the response has no substring made of the opening tag,
  a non-empty run of characters other than \<^verbatim>\<open><\<close> and the closing tag, and otherwise the
  run of the first such substring. \<open>first_element_text_absent\<close>,
  \<open>first_element_text_present\<close> and \<open>first_element_text_Some_iff\<close> say that
  \<open>first_element_text\<close> is that. The example of the specification is the witness.
\<close>

theorem extract_first_occurrence:
  assumes "bare_name t" and "CHR ''.'' \<notin> set t"
  shows "extractXmlValue xml t =
           Some (Inr (case first_element_text t xml of None \<Rightarrow> Null | Some v \<Rightarrow> Str v))"
  using extract_tag [OF bare_name_plain [OF assms(1)], of xml]
    find_tag_literal [OF assms(2), of xml]
  by simp

theorem extract_first_occurrence_witness:
  "bare_name ''cityCode'' \<and> CHR ''.'' \<notin> set ''cityCode''
   \<and> extractXmlValue ''<a><cityCode>NYC</cityCode></a>'' ''cityCode'' = Some (Inr (Str ''NYC''))"
proof -
  have b: "bare_name ''cityCode''" by code_simp
  have d: "CHR ''.'' \<notin> set ''cityCode''" by simp
  have f: "first_element_text ''cityCode'' ''<a><cityCode>NYC</cityCode></a>'' = Some ''NYC''"
    by code_simp
  from extract_first_occurrence [OF b d, of "''<a><cityCode>NYC</cityCode></a>''"] f b d
  show ?thesis by simp
qed

text \<open>
  Claim C2, as stated, fails: on the CDATA example the call returns no string at all. The
  content of the element starts with \<^verbatim>\<open><\<close>, so no run of other characters follows the
  opening tag.
\<close>

theorem extract_cdata_counterexample:
  "\<not> (\<exists>v. extractXmlValue ''<x><![CDATA[<y>]]></x>'' ''x'' = Some (Inr (Str v)))"
proof -
  have "extractXmlValue ''<x><![CDATA[<y>]]></x>'' ''x'' = Some (Inr Null)" by code_simp
  then show ?thesis by simp
qed

text \<open>
  Claim C2, amended. On the response \<^verbatim>\<open><x><![CDATA[<y>]]></x>\<close> with the tag name
  \<^verbatim>\<open>x\<close> the call returns \<^verbatim>\<open>null\<close>.
\<close>

theorem extract_cdata_absent:
  "extractXmlValue ''<x><![CDATA[<y>]]></x>'' ''x'' = Some (Inr Null)"
  by code_simp

text \<open>
  The mock response of the specification's end-to-end scenario gives the three values it
  lists.
\<close>

lemma extract_weather_response:
  "extractXmlValue
     ''<GetWeatherResponse><cityCode>NYC</cityCode><temperature>72</temperature><success>true</success></GetWeatherResponse>''
     ''temperature'' = Some (Inr (Str ''72''))"
  "extractXmlValue
     ''<GetWeatherResponse><cityCode>NYC</cityCode><temperature>72</temperature><success>true</success></GetWeatherResponse>''
     ''success'' = Some (Inr (Str ''true''))"
  "extractXmlValue
     ''<GetWeatherResponse><cityCode>NYC</cityCode><temperature>72</temperature><success>true</success></GetWeatherResponse>''
     ''cityCode'' = Some (Inr (Str ''NYC''))"
  by code_simp+

text \<open>
  The pattern is not valid for every string in the place of the tag name: a left
  parenthesis opens a group that is never closed, and \<^verbatim>\<open>new RegExp\<close> throws.
\<close>

lemma extract_throws_on_open_paren:
  "extractXmlValue ''<a>1</a>'' ''('' = Some (Inl SyntaxError)"
  by code_simp

text \<open>
  Claim C8. For every response, well-formed or not, and every bare tag name, the call
  returns and throws nothing: its result is \<^verbatim>\<open>null\<close> or a string. (The functions of the
  embedding are total, so the call ends; the theorem says how.)
\<close>

theorem extract_never_raises:
  assumes "bare_name tagName"
  shows "extractXmlValue xmlText tagName = Some (Inr Null)
         \<or> (\<exists>v. extractXmlValue xmlText tagName = Some (Inr (Str v)))"
  using extract_tag [OF bare_name_plain [OF assms], of xmlText]
  by (cases "find_tag tagName xmlText") simp_all

theorem extract_never_raises_witness:
  "bare_name ''item''
   \<and> (extractXmlValue ''<item>5</item<<&>'' ''item'' = Some (Inr Null)
      \<or> (\<exists>v. extractXmlValue ''<item>5</item<<&>'' ''item'' = Some (Inr (Str v))))"
proof -
  have b: "bare_name ''item''" by code_simp
  from extract_never_raises [OF b, of "''<item>5</item<<&>''"] b show ?thesis by blast
qed

text \<open>
  Claim C10. For every bare tag name the call never returns the empty string, and on the
  element with empty content, \<^verbatim>\<open><t></t>\<close>, it returns \<^verbatim>\<open>null\<close>: the captured text has
  at least one character.
\<close>

theorem extract_never_empty:
  assumes "bare_name t"
  shows "extractXmlValue xml t \<noteq> Some (Inr (Str []))
         \<and> extractXmlValue (''<'' @ t @ ''></'' @ t @ ''>'') t = Some (Inr Null)"
proof
  show "extractXmlValue xml t \<noteq> Some (Inr (Str []))"
    using extract_tag [OF bare_name_plain [OF assms], of xml] find_tag_nonempty [of t xml]
    by (cases "find_tag t xml") auto
  show "extractXmlValue (''<'' @ t @ ''></'' @ t @ ''>'') t = Some (Inr Null)"
    using extract_tag [OF bare_name_plain [OF assms], of "''<'' @ t @ ''></'' @ t @ ''>''"]
      find_tag_empty_element [OF assms]
    by simp
qed

theorem extract_never_empty_witness:
  "bare_name ''t''
   \<and> extractXmlValue ''<a><t></t><t>x</t></a>'' ''t'' \<noteq> Some (Inr (Str []))
   \<and> extractXmlValue ''<t></t>'' ''t'' = Some (Inr Null)"
proof -
  have b: "bare_name ''t''" by code_simp
  from extract_never_empty [OF b, of "''<a><t></t><t>x</t></a>''"] b show ?thesis by simp
qed

end
